theory Spec2Isabelle
  imports Complex_Main "HOL-Library.Sublist"
begin

section \<open>Python values, exceptions and effects\<close>

text \<open>
  The script \<^verbatim>\<open>pytorch_unet/trainer/interpret.py\<close> is embedded function by function.
  An uncaught Python exception is a value \<open>Inl e\<close> of a sum type; a call that never
  returns is the value \<open>None\<close> of an option type.

  The network, its gradient, the pooling kernel, the image loader, the file system and the
  plotting library are not part of the script: they appear as parameters and are taken to
  return.  What the script itself does with their results (indexing, squeezing) is part of
  the embedding.  Tensor entries are real numbers.
\<close>

datatype py_error = IndexError | ValueError | SystemExit

text \<open>The values an argument such as \<^verbatim>\<open>postprocess\<close> can hold.\<close>

datatype py_value = PyNone | PyStr string | PyInt int | PyBool bool

text \<open>A tensor: its shape and its entries in row-major order.\<close>

record tensor =
  shape :: "nat list"
  entries :: "real list"

text \<open>\<^verbatim>\<open>t.unsqueeze(0)\<close> and \<^verbatim>\<open>t[None]\<close>: a new leading dimension of size one.\<close>

definition unsqueeze0 :: "tensor \<Rightarrow> tensor" where
  "unsqueeze0 t = t\<lparr>shape := 1 # shape t\<rparr>"

text \<open>
  What a run leaves behind, in order: the tensors handed to the network or to one of its
  blocks, the directories created, the figures saved and the lines printed.
\<close>

datatype event = Forward "tensor list" | Makedirs string | Savefig string | Print string

text \<open>
  A run either never returns (\<open>None\<close>) or leaves its events and ends with an exception
  or a value.  The events before an exception stay.
\<close>

type_synonym 'a run = "(event list \<times> (py_error + 'a)) option"

definition ret :: "'a \<Rightarrow> 'a run" where
  "ret a = Some ([], Inr a)"

definition emit :: "event \<Rightarrow> unit run" where
  "emit ev = Some ([ev], Inr ())"

definition lift_result :: "py_error + 'a \<Rightarrow> 'a run" where
  "lift_result r = Some ([], r)"

definition lift_option :: "'a option \<Rightarrow> 'a run" where
  "lift_option r = (case r of None \<Rightarrow> None | Some a \<Rightarrow> Some ([], Inr a))"

definition and_then :: "'a run \<Rightarrow> ('a \<Rightarrow> 'b run) \<Rightarrow> 'b run" where
  "and_then m f =
     (case m of
        None \<Rightarrow> None
      | Some (evs, Inl e) \<Rightarrow> Some (evs, Inl e)
      | Some (evs, Inr a) \<Rightarrow>
          (case f a of None \<Rightarrow> None | Some (evs', r) \<Rightarrow> Some (evs @ evs', r)))"

definition saved :: "event list \<Rightarrow> string list" where
  "saved evs = concat (map (\<lambda>ev. case ev of Savefig path \<Rightarrow> [path] | _ \<Rightarrow> []) evs)"

definition forwarded :: "event list \<Rightarrow> tensor list" where
  "forwarded evs = concat (map (\<lambda>ev. case ev of Forward ts \<Rightarrow> ts | _ \<Rightarrow> []) evs)"

text \<open>\<^verbatim>\<open>xs[i]\<close> for an index that is not negative.\<close>

definition py_index :: "'a list \<Rightarrow> nat \<Rightarrow> py_error + 'a" where
  "py_index xs i = (if i < length xs then Inr (xs ! i) else Inl IndexError)"

text \<open>\<^verbatim>\<open>range(n)\<close>: empty when \<open>n\<close> is not positive.\<close>

definition py_range :: "int \<Rightarrow> nat list" where
  "py_range n = [0..<nat n]"

text \<open>\<^verbatim>\<open>'{}'.format(n)\<close> for an integer: its decimal digits.\<close>

definition digit_char :: "nat \<Rightarrow> char" where
  "digit_char d = ''0123456789'' ! d"

fun str_nat :: "nat \<Rightarrow> string" where
  "str_nat n = (if n < 10 then [digit_char n] else str_nat (n div 10) @ [digit_char (n mod 10)])"

declare str_nat.simps [simp del]

definition str_int :: "int \<Rightarrow> string" where
  "str_int i = (if i < 0 then CHR ''-'' # str_nat (nat (- i)) else str_nat (nat i))"

section \<open>Command line: \<^verbatim>\<open>parse_args\<close>\<close>

text \<open>The namespace \<^verbatim>\<open>parse_args\<close> returns: one field for each \<^verbatim>\<open>add_argument\<close>.\<close>

record args =
  main_dir :: string
  interpret_path :: string
  weights_dir :: string
  image_size :: int
  depth :: int
  plot_interpret :: string
  plot_size :: int

text \<open>
  The command line, as the occurrences of the seven options in their order, each with the
  string that follows it.  Splitting the words of the command line into such occurrences is
  the argument parser's business.
\<close>

datatype flag = Main_dir | Interpret_path | Weights_dir | Image_size | Depth | Plot_interpret | Plot_size

text \<open>The \<^verbatim>\<open>default=\<close> of every option, and the \<^verbatim>\<open>choices=\<close> of \<^verbatim>\<open>--plot_interpret\<close>.\<close>

definition defaults :: args where
  "defaults =
     \<lparr>main_dir = ''C:'' @ [CHR 0x5C] @ ''Users'' @ [CHR 0x5C] @ ''Mukesh'' @ [CHR 0x5C] @
        ''Segmentation'' @ [CHR 0x5C] @ ''radnet'' @ [CHR 0x5C],
      interpret_path = ''./visualize'',
      weights_dir = ''./weights'',
      image_size = 64,
      depth = 3,
      plot_interpret = ''block_filters'',
      plot_size = 128\<rparr>"





text \<open>A reading of decimal numerals (a sign, then digits) to run \<open>parse_args\<close> with.\<close>

definition digit_value :: "char \<Rightarrow> nat option" where
  "digit_value c = (if c \<in> set ''0123456789'' then Some (of_char c - 48) else None)"

fun decimal_digits :: "nat \<Rightarrow> string \<Rightarrow> nat option" where
  "decimal_digits acc [] = Some acc"
| "decimal_digits acc (c # cs) =
     (case digit_value c of None \<Rightarrow> None | Some d \<Rightarrow> decimal_digits (10 * acc + d) cs)"

fun decimal :: "string \<Rightarrow> int option" where
  "decimal [] = None"
| "decimal (c # cs) =
     (if c = CHR ''-'' then (if cs = [] then None else map_option (\<lambda>n. - int n) (decimal_digits 0 cs))
      else if c = CHR ''+'' then (if cs = [] then None else map_option int (decimal_digits 0 cs))
      else map_option int (decimal_digits 0 (c # cs)))"

section \<open>The network and its named blocks\<close>

text \<open>
  A block of the network is called with one tensor (a block of the down path) or with two
  (a block of the up path, with the bridge).
\<close>

record block =
  call1 :: "tensor \<Rightarrow> tensor"
  call2 :: "tensor \<Rightarrow> tensor \<Rightarrow> tensor"

text \<open>
  The output of the network on a batch of one: the scores of every class at every output
  position (one position for a classifier, one per pixel for a segmentation network).  The
  class dimension is not empty: there are \<open>Suc (extra_classes out)\<close> classes.
\<close>

record net_output =
  extra_classes :: nat
  positions :: nat
  score :: "nat \<Rightarrow> nat \<Rightarrow> real"

definition n_classes :: "net_output \<Rightarrow> nat" where
  "n_classes out = Suc (extra_classes out)"

text \<open>
  The loaded model: \<^verbatim>\<open>named_modules()\<close>, the forward pass, and what
  \<^verbatim>\<open>output.backward(gradient=g)\<close> leaves in \<^verbatim>\<open>X.grad.data[0]\<close>.
\<close>

record model =
  named_modules :: "(string \<times> block) list"
  forward :: "tensor \<Rightarrow> net_output"
  backward :: "tensor \<Rightarrow> real list list \<Rightarrow> real list"

text \<open>What the script imports or calls from outside.\<close>

record env =
  sys_argv :: "(flag \<times> string) list"
  to_int :: "string \<Rightarrow> int option"
  path_exists :: "string \<Rightarrow> bool"
  path_join :: "string \<Rightarrow> string \<Rightarrow> string \<Rightarrow> string"
  load_model :: "args \<Rightarrow> model"
  load_image :: "string \<Rightarrow> args \<Rightarrow> tensor \<times> tensor"
  avg_pool2d :: "tensor \<Rightarrow> tensor"

section \<open>Finding the blocks: \<^verbatim>\<open>all_children\<close>, \<^verbatim>\<open>get_values\<close>, \<^verbatim>\<open>get_block_list\<close>\<close>

definition all_children :: "model \<Rightarrow> (string \<times> block) list" where
  "all_children modl = fold (\<lambda>child children. children @ [child]) (named_modules modl) []"

text \<open>
  \<^verbatim>\<open>key_to_find in z\<close>, where \<open>z\<close> is a pair \<^verbatim>\<open>(name, module)\<close> of
  \<^verbatim>\<open>named_modules()\<close>: membership in a tuple compares the key with each component, and a
  module is never equal to a string.
\<close>

definition tuple_contains :: "string \<times> 'm \<Rightarrow> string \<Rightarrow> bool" where
  "tuple_contains z key_to_find = (fst z = key_to_find)"

definition get_values :: "(string \<times> 'm) list \<Rightarrow> string \<Rightarrow> (string \<times> 'm) list" where
  "get_values iterables key_to_find = filter (\<lambda>z. tuple_contains z key_to_find) iterables"

text \<open>\<^verbatim>\<open>seq[x][0][1]\<close>\<close>

definition first_block :: "(string \<times> 'm) list list \<Rightarrow> nat \<Rightarrow> py_error + 'm" where
  "first_block seq x =
     (case py_index seq x of
        Inl e \<Rightarrow> Inl e
      | Inr found \<Rightarrow> (case py_index found 0 of Inl e \<Rightarrow> Inl e | Inr z \<Rightarrow> Inr (snd z)))"

text \<open>\<^verbatim>\<open>for x in range(..): block_list.append(seq[x][0][1])\<close>\<close>

fun append_blocks :: "(string \<times> 'm) list list \<Rightarrow> nat list \<Rightarrow> 'm list \<Rightarrow> py_error + 'm list" where
  "append_blocks seq [] block_list = Inr block_list"
| "append_blocks seq (x # xs) block_list =
     (case first_block seq x of
        Inl e \<Rightarrow> Inl e
      | Inr b \<Rightarrow> append_blocks seq xs (block_list @ [b]))"

definition get_block_list :: "(string \<times> 'm) list \<Rightarrow> args \<Rightarrow> py_error + ('m list \<times> 'm list)" where
  "get_block_list child_list a =
     (let down_seq = map (\<lambda>y. get_values child_list (''down_path.'' @ str_nat y)) (py_range (depth a))
      in case append_blocks down_seq (py_range (depth a)) [] of
           Inl e \<Rightarrow> Inl e
         | Inr down_block_list \<Rightarrow>
             (let up_seq = map (\<lambda>y. get_values child_list (''up_path.'' @ str_nat y))
                             (py_range (depth a - 1))
              in case append_blocks up_seq (py_range (depth a - 1)) [] of
                   Inl e \<Rightarrow> Inl e
                 | Inr up_block_list \<Rightarrow> Inr (down_block_list, up_block_list)))"

section \<open>Repeated pooling: \<^verbatim>\<open>do_pooling\<close>\<close>

text \<open>
  \<^verbatim>\<open>
  def do_pooling(dep, d):
      if (dep - 1) == 1:
          return F.avg_pool2d(d, 2)
      else:
          return F.avg_pool2d(do_pooling(dep - 1, d), 2)
  \<close>
  The parameter \<open>pool\<close> stands for \<^verbatim>\<open>F.avg_pool2d(_, 2)\<close>.  The recursion
  counts \<open>dep\<close> down and stops only at \<open>dep = 2\<close>, so it is a partial function.
\<close>

partial_function (option) do_pooling :: "('t \<Rightarrow> 't) \<Rightarrow> int \<Rightarrow> 't \<Rightarrow> 't option" where
  "do_pooling pool dep d =
     (if dep - 1 = 1 then Some (pool d)
      else Option.bind (do_pooling pool (dep - 1) d) (\<lambda>r. Some (pool r)))"

section \<open>Block activations: \<^verbatim>\<open>plot_block\<close>, \<^verbatim>\<open>block_filters\<close>\<close>

text \<open>
  \<^verbatim>\<open>block[0][i]\<close>: channel \<open>i\<close> of entry 0 of the batch.  The index raises when the
  tensor has no such entry or no such channel.  What is drawn of the channel belongs to the
  plotting library.
\<close>

definition channel :: "tensor \<Rightarrow> nat \<Rightarrow> py_error + unit" where
  "channel blk i =
     (case shape blk of
        n # c # rest \<Rightarrow> if 0 < n \<and> i < c then Inr () else Inl IndexError
      | _ \<Rightarrow> Inl IndexError)"

text \<open>
  \<^verbatim>\<open>
  for i in range(img_size):
      fig.add_subplot(round(sqrt(img_size)) + 1, round(sqrt(img_size)) + 1, i + 1)
      plt.imshow(block[0][i].cpu().detach().numpy())
      plt.axis('off')
  \<close>
\<close>

fun show_channels :: "tensor \<Rightarrow> nat list \<Rightarrow> unit run" where
  "show_channels blk [] = ret ()"
| "show_channels blk (i # rest) =
     and_then (lift_result (channel blk i)) (\<lambda>_. show_channels blk rest)"

text \<open>
  \<^verbatim>\<open>plot_block(args, block, img_size, name)\<close> draws the first \<open>img_size\<close> channels
  of the block into one figure and saves it:
  \<^verbatim>\<open>plt.savefig(args.interpret_path + '/{}_block_filter_{}.png'.format(name, img_size))\<close>.
\<close>

definition plot_block :: "args \<Rightarrow> tensor \<Rightarrow> int \<Rightarrow> string \<Rightarrow> unit run" where
  "plot_block a blk img_size name =
     and_then (show_channels blk (py_range img_size)) (\<lambda>_.
     emit (Savefig (interpret_path a @ ''/'' @ name @ ''_block_filter_'' @ str_int img_size @ ''.png'')))"

text \<open>
  \<^verbatim>\<open>for i in range(1, len(down_list)): dep_list.append(down_list[i](dep_list[i - 1]))\<close>
\<close>

fun down_pass :: "block list \<Rightarrow> nat list \<Rightarrow> tensor list \<Rightarrow> tensor list run" where
  "down_pass down_list [] dep_list = ret dep_list"
| "down_pass down_list (i # rest) dep_list =
     and_then (lift_result (py_index down_list i)) (\<lambda>blk.
     and_then (lift_result (py_index dep_list (i - 1))) (\<lambda>prev.
     and_then (emit (Forward [prev])) (\<lambda>_.
     down_pass down_list rest (dep_list @ [call1 blk prev]))))"

text \<open>
  \<^verbatim>\<open>for j, m in zip(range(len(blocks)), sizes): plot_block(args, blocks[j], m, name=name)\<close>
\<close>

fun plot_blocks :: "args \<Rightarrow> tensor list \<Rightarrow> (nat \<times> int) list \<Rightarrow> string \<Rightarrow> unit run" where
  "plot_blocks a blocks [] name = ret ()"
| "plot_blocks a blocks ((j, m) # rest) name =
     and_then (lift_result (py_index blocks j)) (\<lambda>blk.
     and_then (plot_block a blk m name) (\<lambda>_.
     plot_blocks a blocks rest name))"

text \<open>
  \<^verbatim>\<open>
  for i in range(len(up_list)):
      pools = do_pooling(args.depth, dep_list[i + 1])
      up_layer = reversed_uplist[i](pools, F.avg_pool2d(dep_list[i], 2))
      up_block.append(up_layer)
  \<close>
\<close>

fun up_pass ::
  "(tensor \<Rightarrow> tensor) \<Rightarrow> int \<Rightarrow> block list \<Rightarrow> tensor list \<Rightarrow> nat list \<Rightarrow> tensor list \<Rightarrow> tensor list run"
where
  "up_pass pool dep reversed_uplist dep_list [] up_block = ret up_block"
| "up_pass pool dep reversed_uplist dep_list (i # rest) up_block =
     and_then (lift_result (py_index dep_list (i + 1))) (\<lambda>d.
     and_then (lift_option (do_pooling pool dep d)) (\<lambda>pools.
     and_then (lift_result (py_index reversed_uplist i)) (\<lambda>blk.
     and_then (lift_result (py_index dep_list i)) (\<lambda>bridge.
     and_then (emit (Forward [pools, pool bridge])) (\<lambda>_.
     up_pass pool dep reversed_uplist dep_list rest (up_block @ [call2 blk pools (pool bridge)]))))))"

definition block_filters :: "env \<Rightarrow> model \<Rightarrow> string \<Rightarrow> args \<Rightarrow> unit run" where
  "block_filters ext modl img_path a =
     (let module_list = all_children modl;
          img_tensor = fst (load_image ext img_path a);
          input_img = unsqueeze0 img_tensor
      in and_then (lift_result (get_block_list module_list a)) (\<lambda>(down_list, up_list).
         and_then (lift_result (py_index down_list 0)) (\<lambda>first.
         and_then (emit (Forward [input_img])) (\<lambda>_.
         and_then (down_pass down_list [1..<length down_list] [call1 first input_img]) (\<lambda>dep_list.
         and_then (plot_blocks a dep_list (zip [0..<length dep_list] [64, 128, 256]) ''down'') (\<lambda>_.
         (let pooled = map (avg_pool2d ext) dep_list;
              reversed_uplist = rev up_list
          in and_then (up_pass (avg_pool2d ext) (depth a) reversed_uplist dep_list
                         [0..<length up_list] []) (\<lambda>up_block.
             plot_blocks a up_block (zip [0..<length up_list] [16, 32]) ''up''))))))))"

section \<open>Sensitivity map: \<^verbatim>\<open>sensitivity_analysis\<close>, \<^verbatim>\<open>plot_sensitivity\<close>\<close>

text \<open>
  The index of the first maximal value among \<open>f 0, \<dots>, f n\<close>: what \<^verbatim>\<open>max(1)[1]\<close>
  gives along the class dimension.
\<close>

definition argmax :: "(nat \<Rightarrow> real) \<Rightarrow> nat \<Rightarrow> nat" where
  "argmax f n = fold (\<lambda>c best. if f best < f c then c else best) [1..<Suc n] 0"

text \<open>
  \<^verbatim>\<open>output_class = output.max(1)[1].data.numpy()[0]\<close>: the predicted class at every
  output position.
\<close>

definition output_class :: "net_output \<Rightarrow> nat list" where
  "output_class out = map (\<lambda>p. argmax (\<lambda>c. score out c p) (extra_classes out)) [0..<positions out]"

text \<open>
  \<^verbatim>\<open>torch.zeros(output.size())\<close>, batch entry 0: one row for every class, one entry for
  every output position.
\<close>

definition zeros :: "net_output \<Rightarrow> real list list" where
  "zeros out = replicate (n_classes out) (replicate (positions out) 0)"

text \<open>
  \<^verbatim>\<open>one_hot_output[0, output_class] = 1\<close>, indexed with the array of predicted classes:
  every entry of the row of every class in the array becomes 1.
\<close>

definition set_rows :: "real list list \<Rightarrow> nat list \<Rightarrow> real list list" where
  "set_rows one_hot cs = fold (\<lambda>c oh. oh[c := map (\<lambda>_. 1) (oh ! c)]) cs one_hot"

text \<open>
  \<^verbatim>\<open>one_hot_output[0, target_class] = 1\<close>, indexed with an integer: a negative index counts
  from the last class, and an index outside the class dimension raises.
\<close>

definition set_row :: "real list list \<Rightarrow> int \<Rightarrow> py_error + real list list" where
  "set_row one_hot target_class =
     (let n = int (length one_hot);
          j = (if target_class < 0 then n + target_class else target_class)
      in if 0 \<le> j \<and> j < n then Inr (one_hot[nat j := map (\<lambda>_. 1) (one_hot ! nat j)])
         else Inl IndexError)"

text \<open>Lines 162 to 170: the gradient handed to \<^verbatim>\<open>output.backward\<close>.\<close>

definition one_hot_output :: "net_output \<Rightarrow> int option \<Rightarrow> py_error + real list list" where
  "one_hot_output out target_class =
     (case target_class of
        None \<Rightarrow> Inr (set_rows (zeros out) (output_class out))
      | Some t \<Rightarrow> set_row (zeros out) t)"

text \<open>
  The index \<^verbatim>\<open>target_class\<close> is inside the class dimension (or absent).
\<close>

definition valid_target :: "net_output \<Rightarrow> int option \<Rightarrow> bool" where
  "valid_target out target_class =
     (case target_class of None \<Rightarrow> True
      | Some t \<Rightarrow> - int (n_classes out) \<le> t \<and> t < int (n_classes out))"

text \<open>Lines 175 to 182: the postprocessing of the relevance map.\<close>

definition postprocessed :: "py_value \<Rightarrow> real list \<Rightarrow> py_error + real list" where
  "postprocessed postprocess relevance_map =
     (if postprocess = PyStr ''abs'' then Inr (map abs relevance_map)
      else if postprocess = PyStr ''square'' then Inr (map (\<lambda>x. x ^ 2) relevance_map)
      else if postprocess = PyNone then Inr relevance_map
      else Inl ValueError)"

definition sensitivity_analysis :: "model \<Rightarrow> tensor \<Rightarrow> int option \<Rightarrow> py_value \<Rightarrow> real list run" where
  "sensitivity_analysis modl image_tensor target_class postprocess =
     (let X = unsqueeze0 image_tensor
      in and_then (emit (Forward [X])) (\<lambda>_.
         (let out = forward modl X
          in and_then (lift_result (one_hot_output out target_class)) (\<lambda>one_hot.
             (let relevance_map = backward modl X one_hot
              in lift_result (postprocessed postprocess relevance_map))))))"



section \<open>The script: \<^verbatim>\<open>main\<close>\<close>


section \<open>What the claims speak of\<close>

text \<open>
  A run that returns a value, with a property of its events and of the value.
\<close>

definition completes_with :: "'a run \<Rightarrow> (event list \<Rightarrow> 'a \<Rightarrow> bool) \<Rightarrow> bool" where
  "completes_with m Q = (\<exists>evs a. m = Some (evs, Inr a) \<and> Q evs a)"

text \<open>
  A run that returns or raises, with a property of its events and its value for the one
  case and of its events and its exception for the other.
\<close>

definition outcome ::
  "'a run \<Rightarrow> (event list \<Rightarrow> 'a \<Rightarrow> bool) \<Rightarrow> (event list \<Rightarrow> py_error \<Rightarrow> bool) \<Rightarrow> bool"
where
  "outcome m Q E =
     (\<exists>evs r. m = Some (evs, r) \<and> (case r of Inr a \<Rightarrow> Q evs a | Inl e \<Rightarrow> E evs e))"

text \<open>The number of channels of entry 0 of the batch that can be indexed.\<close>

definition channels :: "tensor \<Rightarrow> nat" where
  "channels blk = (case shape blk of n # c # rest \<Rightarrow> if 0 < n then c else 0 | _ \<Rightarrow> 0)"

text \<open>The module of the first entry of \<^verbatim>\<open>named_modules()\<close> with this name.\<close>

definition named_block :: "model \<Rightarrow> string \<Rightarrow> block" where
  "named_block modl key = snd (hd (get_values (named_modules modl) key))"

text \<open>
  Every block whose output is plotted is wide enough: down block \<open>j\<close> gives at least as
  many channels as entry \<open>j\<close> of \<open>[64, 128, 256]\<close>, and the up block called as number
  \<open>i\<close> (the list of up blocks is reversed) at least as many as entry \<open>i\<close> of
  \<open>[16, 32]\<close>.
\<close>

definition wide_enough :: "model \<Rightarrow> args \<Rightarrow> bool" where
  "wide_enough modl a =
     ((\<forall>j < min (nat (depth a)) 3. \<forall>t.
         nat ([64, 128, 256] ! j) \<le> channels (call1 (named_block modl (''down_path.'' @ str_nat j)) t)) \<and>
      (\<forall>i < min (nat (depth a - 1)) 2. \<forall>t bridge.
         nat ([16, 32] ! i) \<le>
           channels (call2 (named_block modl (''up_path.'' @ str_nat (nat (depth a - 1) - Suc i))) t bridge)))"

text \<open>
  The file name \<^verbatim>\<open>{interpret_path}/{name}_block_filter_{size}.png\<close> of the specification.
\<close>

definition block_filter_png :: "string \<Rightarrow> string \<Rightarrow> int \<Rightarrow> string" where
  "block_filter_png dir name sz = dir @ ''/'' @ name @ ''_block_filter_'' @ str_int sz @ ''.png''"


text \<open>A tensor whose leading dimension is 1: a batch of one.\<close>

definition batch_of_one :: "tensor \<Rightarrow> bool" where
  "batch_of_one t = (case shape t of [] \<Rightarrow> False | n # rest \<Rightarrow> n = 1)"

text \<open>
  The pooling and every block of the model give a batch of one when they are given a batch
  of one: the layers of the network work on each entry of the batch by itself.
\<close>

definition keeps_batch :: "env \<Rightarrow> model \<Rightarrow> bool" where
  "keeps_batch ext modl =
     ((\<forall>t. batch_of_one t \<longrightarrow> batch_of_one (avg_pool2d ext t)) \<and>
      (\<forall>b \<in> snd ` set (named_modules modl). \<forall>t. batch_of_one t \<longrightarrow> batch_of_one (call1 b t)))"

text \<open>
  The model has a module of each name that \<^verbatim>\<open>get_block_list\<close> looks up for this depth.
\<close>

definition blocks_named :: "model \<Rightarrow> args \<Rightarrow> bool" where
  "blocks_named modl a =
     ((\<forall>y < nat (depth a). ''down_path.'' @ str_nat y \<in> fst ` set (named_modules modl)) \<and>
      (\<forall>y < nat (depth a - 1). ''up_path.'' @ str_nat y \<in> fst ` set (named_modules modl)))"







section \<open>Example inputs\<close>

text \<open>
  A small network with three down blocks of 256 channels and two up blocks of 32 channels,
  whose output has two classes at two positions, and a classifier output with two classes
  at one position.
\<close>

definition example_image :: tensor where
  "example_image = \<lparr>shape = [1, 1, 2], entries = [5, 7]\<rparr>"



definition example_block :: "real \<Rightarrow> block" where
  "example_block k =
     \<lparr>call1 = (\<lambda>t. \<lparr>shape = [1, 256, 1, 1], entries = replicate 256 k\<rparr>),
      call2 = (\<lambda>t bridge. \<lparr>shape = [1, 32, 1, 1], entries = replicate 32 k\<rparr>)\<rparr>"

definition example_model :: model where
  "example_model =
     \<lparr>named_modules =
        [('''', example_block 0), (''down_path'', example_block 1),
         (''down_path.0'', example_block 2), (''down_path.0.block'', example_block 3),
         (''down_path.1'', example_block 4), (''down_path.2'', example_block 5),
         (''up_path'', example_block 6), (''up_path.0'', example_block 7),
         (''up_path.1'', example_block 8), (''last'', example_block 9)],
      forward = (\<lambda>X. \<lparr>extra_classes = 1, positions = 2,
                         score = (\<lambda>c p. if c = 0 then 1 else 0)\<rparr>),
      backward = (\<lambda>X g. [sum_list (map sum_list g) - 4, 3])\<rparr>"

definition example_env :: env where
  "example_env =
     \<lparr>sys_argv = [(Plot_interpret, ''sensitivity'')],
      to_int = decimal,
      path_exists = (\<lambda>path. False),
      path_join = (\<lambda>dir sub file. dir @ sub @ ''/'' @ file),
      load_model = (\<lambda>a. example_model),
      load_image = (\<lambda>path a. (example_image, example_image)),
      avg_pool2d = (\<lambda>t. t\<lparr>entries := take 1 (entries t)\<rparr>)\<rparr>"


section \<open>Properties of \<^verbatim>\<open>do_pooling\<close>\<close>

lemma do_pooling_offset: "do_pooling p (int n + 2) d = Some ((p ^^ Suc n) d)"
proof (induction n)
  case 0
  show ?case by (subst do_pooling.simps) simp
next
  case (Suc n)
  have "int (Suc n) + 2 - 1 = int n + 2" by simp
  then show ?case using Suc
    by (subst do_pooling.simps) (simp add: add.commute)
qed

lemma do_pooling_returns: "2 \<le> dep \<Longrightarrow> do_pooling p dep d = Some ((p ^^ nat (dep - 1)) d)"
proof -
  assume "2 \<le> dep"
  then have dep: "dep = int (nat (dep - 2)) + 2" and n: "nat (dep - 1) = Suc (nat (dep - 2))"
    by simp_all
  show ?thesis
    by (subst dep, subst n) (rule do_pooling_offset)
qed





section \<open>Properties of \<^verbatim>\<open>get_block_list\<close>\<close>

lemma first_block_eq:
  "first_block seq x =
     (if x < length seq \<and> seq ! x \<noteq> [] then Inr (snd (hd (seq ! x))) else Inl IndexError)"
  by (cases "seq ! x") (auto simp: first_block_def py_index_def)

lemma append_blocks_eq:
  "append_blocks seq xs acc =
     (if \<forall>x\<in>set xs. x < length seq \<and> seq ! x \<noteq> []
      then Inr (acc @ map (\<lambda>x. snd (hd (seq ! x))) xs) else Inl IndexError)"
  by (induction xs arbitrary: acc) (auto simp: first_block_eq)

lemma append_blocks_range:
  "append_blocks (map f [0..<n]) [0..<n] [] =
     (if \<forall>y<n. f y \<noteq> [] then Inr (map (\<lambda>y. snd (hd (f y))) [0..<n]) else Inl IndexError)"
proof -
  have same: "map (\<lambda>x. snd (hd (map f [0..<n] ! x))) [0..<n] = map (\<lambda>y. snd (hd (f y))) [0..<n]"
    by (rule map_cong) simp_all
  have cond: "(\<forall>x\<in>set [0..<n]. x < length (map f [0..<n]) \<and> map f [0..<n] ! x \<noteq> []) \<longleftrightarrow> (\<forall>y<n. f y \<noteq> [])"
    by auto
  show ?thesis
    unfolding append_blocks_eq cond same by simp
qed

lemma get_values_empty: "get_values cl key = [] \<longleftrightarrow> key \<notin> fst ` set cl"
  by (auto simp: get_values_def tuple_contains_def filter_empty_conv)

lemma hd_get_values:
  "key \<in> fst ` set cl \<Longrightarrow> find (\<lambda>z. fst z = key) cl = Some (hd (get_values cl key))"
  by (induction cl) (auto simp: get_values_def tuple_contains_def)

lemma get_block_list_eq:
  "get_block_list cl a =
     (if (\<forall>y < nat (depth a). (''down_path.'' @ str_nat y) \<in> fst ` set cl) \<and>
         (\<forall>y < nat (depth a - 1). (''up_path.'' @ str_nat y) \<in> fst ` set cl)
      then Inr (map (\<lambda>y. snd (hd (get_values cl (''down_path.'' @ str_nat y)))) [0..<nat (depth a)],
                map (\<lambda>y. snd (hd (get_values cl (''up_path.'' @ str_nat y)))) [0..<nat (depth a - 1)])
      else Inl IndexError)"
  unfolding get_block_list_def Let_def py_range_def append_blocks_range get_values_empty
  by simp

text \<open>
  Claim C4, with the match as the code makes it.  \<^verbatim>\<open>get_values\<close> keeps the entries whose
  name \<^emph>\<open>is\<close> the key (membership in the pair), not those whose name contains it.  When
  for every \<open>y < depth\<close> some entry is named \<^verbatim>\<open>down_path.y\<close> and for every
  \<open>y < depth - 1\<close> some entry is named \<^verbatim>\<open>up_path.y\<close>, \<^verbatim>\<open>get_block_list\<close> returns a
  down list of length \<open>depth\<close> and an up list of length \<open>depth - 1\<close> (0 when that is
  negative), whose elements are the modules of the first entries so named, in list order.
  When a name is missing, the index \<^verbatim>\<open>[0]\<close> raises \<^verbatim>\<open>IndexError\<close>.
\<close>

theorem get_block_list_first_named:
  "((\<forall>y < nat (depth a). ''down_path.'' @ str_nat y \<in> fst ` set child_list) \<and>
    (\<forall>y < nat (depth a - 1). ''up_path.'' @ str_nat y \<in> fst ` set child_list) \<longrightarrow>
      (\<exists>down_list up_list.
         get_block_list child_list a = Inr (down_list, up_list) \<and>
         length down_list = nat (depth a) \<and> length up_list = nat (depth a - 1) \<and>
         (\<forall>y < nat (depth a).
            map_option snd (find (\<lambda>z. fst z = ''down_path.'' @ str_nat y) child_list) = Some (down_list ! y)) \<and>
         (\<forall>y < nat (depth a - 1).
            map_option snd (find (\<lambda>z. fst z = ''up_path.'' @ str_nat y) child_list) = Some (up_list ! y)))) \<and>
   (\<not> ((\<forall>y < nat (depth a). ''down_path.'' @ str_nat y \<in> fst ` set child_list) \<and>
       (\<forall>y < nat (depth a - 1). ''up_path.'' @ str_nat y \<in> fst ` set child_list)) \<longrightarrow>
      get_block_list child_list a = Inl IndexError)"
  by (simp add: get_block_list_eq hd_get_values)

theorem get_block_list_first_named_witness:
  "get_block_list
     [('''', 0), (''down_path'', 1), (''down_path.0'', 2), (''down_path.0.block'', 3),
      (''down_path.1'', 4), (''up_path'', 5), (''up_path.0'', 6), (''down_path.0'', 7 :: nat)]
     (defaults\<lparr>depth := 2\<rparr>) = Inr ([2, 4], [6]) \<and>
   get_block_list [(''down_path.0'', 2 :: nat)] (defaults\<lparr>depth := 2\<rparr>) = Inl IndexError"
proof -
  let ?cl = "[('''', 0), (''down_path'', 1), (''down_path.0'', 2), (''down_path.0.block'', 3),
      (''down_path.1'', 4), (''up_path'', 5), (''up_path.0'', 6), (''down_path.0'', 7 :: nat)]"
  let ?a = "defaults\<lparr>depth := 2\<rparr>"
  have two: "nat (depth ?a) = Suc (Suc 0)" and one: "nat (depth ?a - 1) = Suc 0"
    by simp_all
  have keys: "str_nat 0 = ''0''" "str_nat (Suc 0) = ''1''"
    by (simp_all add: str_nat.simps digit_char_def)
  have pre: "(\<forall>y < nat (depth ?a). ''down_path.'' @ str_nat y \<in> fst ` set ?cl) \<and>
    (\<forall>y < nat (depth ?a - 1). ''up_path.'' @ str_nat y \<in> fst ` set ?cl)"
    unfolding two one by (simp add: All_less_Suc keys)
  from get_block_list_first_named [of ?a ?cl] pre
  obtain down_list up_list where
    res: "get_block_list ?cl ?a = Inr (down_list, up_list)" and
    len: "length down_list = nat (depth ?a)" "length up_list = nat (depth ?a - 1)" and
    downs: "\<forall>y < nat (depth ?a).
            map_option snd (find (\<lambda>z. fst z = ''down_path.'' @ str_nat y) ?cl) = Some (down_list ! y)" and
    ups: "\<forall>y < nat (depth ?a - 1).
            map_option snd (find (\<lambda>z. fst z = ''up_path.'' @ str_nat y) ?cl) = Some (up_list ! y)"
    by blast
  from downs have "down_list ! 0 = 2" "down_list ! Suc 0 = 4"
    unfolding two by (simp_all add: All_less_Suc keys)
  with len(1) have d: "down_list = [2, 4]"
    unfolding two by (cases down_list; cases "tl down_list") auto
  from ups have "up_list ! 0 = 6"
    unfolding one by (simp add: keys)
  with len(2) have u: "up_list = [6]"
    unfolding one by (cases up_list) auto
  have "\<not> ((\<forall>y < nat (depth ?a). ''down_path.'' @ str_nat y \<in> fst ` set [(''down_path.0'', 2 :: nat)]) \<and>
       (\<forall>y < nat (depth ?a - 1). ''up_path.'' @ str_nat y \<in> fst ` set [(''down_path.0'', 2 :: nat)]))"
    unfolding two one by (simp add: All_less_Suc keys)
  with get_block_list_first_named [of ?a "[(''down_path.0'', 2 :: nat)]"]
  have "get_block_list [(''down_path.0'', 2 :: nat)] ?a = Inl IndexError" by blast
  with res d u show ?thesis by simp
qed

text \<open>
  The claim as it is written fails.  These are the names of a one-block network held as the
  submodule \<^verbatim>\<open>module\<close> of a wrapper: the last name contains \<^verbatim>\<open>down_path.0\<close>, and for
  depth 1 nothing is asked of the up path, yet the call raises.
\<close>

theorem get_block_list_substring_counterexample:
  "sublist ''down_path.0'' ''module.down_path.0'' \<and>
   get_block_list
     [('''', ()), (''module'', ()), (''module.down_path'', ()), (''module.down_path.0'', ())]
     (defaults\<lparr>depth := 1\<rparr>) = Inl IndexError"
proof
  have "sublist ''down_path.0'' (''module.'' @ ''down_path.0'' @ [])"
    by (rule sublist_appendI)
  then show "sublist ''down_path.0'' ''module.down_path.0''" by simp
next
  show "get_block_list
     [('''', ()), (''module'', ()), (''module.down_path'', ()), (''module.down_path.0'', ())]
     (defaults\<lparr>depth := 1\<rparr>) = Inl IndexError"
    by (simp add: get_block_list_eq digit_char_def str_nat.simps)
qed

section \<open>Sequencing of runs\<close>

lemma and_then_ret [simp]: "and_then (ret a) f = f a"
  by (simp add: and_then_def ret_def split: option.splits prod.splits)

lemma and_then_lift_Inr [simp]: "and_then (lift_result (Inr a)) f = f a"
  by (simp add: and_then_def lift_result_def split: option.splits prod.splits)

lemma and_then_lift_Inl [simp]: "and_then (lift_result (Inl e)) f = Some ([], Inl e)"
  by (simp add: and_then_def lift_result_def)

lemma and_then_emit:
  "and_then (emit ev) f = (case f () of None \<Rightarrow> None | Some (evs, r) \<Rightarrow> Some (ev # evs, r))"
  by (simp add: and_then_def emit_def split: option.splits prod.splits)

lemma and_then_Some_Inr [simp]:
  "and_then (Some (evs, Inr a)) f = (case f a of None \<Rightarrow> None | Some (evs', r) \<Rightarrow> Some (evs @ evs', r))"
  by (simp add: and_then_def)

lemma and_then_Some_Inl [simp]: "and_then (Some (evs, Inl e)) f = Some (evs, Inl e)"
  by (simp add: and_then_def)

lemma and_then_None [simp]: "and_then None f = None"
  by (simp add: and_then_def)

lemma and_then_lift_Some [simp]: "and_then (lift_option (Some a)) f = f a"
  by (simp add: and_then_def lift_option_def split: option.splits prod.splits)

lemma and_then_lift_None [simp]: "and_then (lift_option None) f = None"
  by (simp add: and_then_def lift_option_def)

lemma completes_and_then:
  assumes "completes_with m Q"
    and "\<And>evs a. Q evs a \<Longrightarrow> completes_with (f a) (\<lambda>evs' b. R (evs @ evs') b)"
  shows "completes_with (and_then m f) R"
proof -
  from assms(1) obtain evs a where m: "m = Some (evs, Inr a)" and q: "Q evs a"
    unfolding completes_with_def by blast
  from assms(2) [OF q] obtain evs' b where f: "f a = Some (evs', Inr b)" and r: "R (evs @ evs') b"
    unfolding completes_with_def by blast
  show ?thesis
    unfolding completes_with_def m by (simp add: f r)
qed

lemma completes_ret: "Q [] a \<Longrightarrow> completes_with (ret a) Q"
  by (simp add: completes_with_def ret_def)

lemma completes_emit: "Q [ev] () \<Longrightarrow> completes_with (emit ev) Q"
  by (simp add: completes_with_def emit_def)

lemma completes_lift_result: "Q [] a \<Longrightarrow> completes_with (lift_result (Inr a)) Q"
  by (simp add: completes_with_def lift_result_def)

lemma completes_lift_option: "Q [] a \<Longrightarrow> completes_with (lift_option (Some a)) Q"
  by (simp add: completes_with_def lift_option_def)

lemma completes_weaken:
  "completes_with m Q \<Longrightarrow> (\<And>evs a. Q evs a \<Longrightarrow> R evs a) \<Longrightarrow> completes_with m R"
  unfolding completes_with_def by blast

lemma saved_simps [simp]:
  "saved [] = []"
  "saved (Savefig path # evs) = path # saved evs"
  "saved (Forward ts # evs) = saved evs"
  "saved (Makedirs d # evs) = saved evs"
  "saved (Print line # evs) = saved evs"
  "saved (evs @ evs') = saved evs @ saved evs'"
  by (simp_all add: saved_def)

lemma forwarded_simps [simp]:
  "forwarded [] = []"
  "forwarded (Forward ts # evs) = ts @ forwarded evs"
  "forwarded (Savefig path # evs) = forwarded evs"
  "forwarded (Makedirs d # evs) = forwarded evs"
  "forwarded (Print line # evs) = forwarded evs"
  "forwarded (evs @ evs') = forwarded evs @ forwarded evs'"
  by (simp_all add: forwarded_def)

section \<open>Properties of \<^verbatim>\<open>sensitivity_analysis\<close>\<close>

lemma sensitivity_analysis_eq:
  "sensitivity_analysis modl image_tensor target_class postprocess =
     Some ([Forward [unsqueeze0 image_tensor]],
           case one_hot_output (forward modl (unsqueeze0 image_tensor)) target_class of
             Inl e \<Rightarrow> Inl e
           | Inr one_hot \<Rightarrow>
               postprocessed postprocess (backward modl (unsqueeze0 image_tensor) one_hot))"
  by (simp add: sensitivity_analysis_def Let_def and_then_emit lift_result_def split: sum.splits)

lemma one_hot_output_Some:
  "one_hot_output out (Some t) =
     (if - int (n_classes out) \<le> t \<and> t < int (n_classes out)
      then Inr ((zeros out)[nat (if t < 0 then int (n_classes out) + t else t) :=
                  replicate (positions out) 1])
      else Inl IndexError)"
proof -
  let ?n = "n_classes out"
  let ?j = "if t < 0 then int ?n + t else t"
  have row: "map (\<lambda>_. 1 :: real) (replicate ?n (replicate (positions out) (0 :: real)) ! nat ?j) =
      replicate (positions out) 1" if "0 \<le> ?j" "?j < int ?n"
    using that by (simp add: map_replicate_const)
  have range: "(0 \<le> ?j \<and> ?j < int ?n) \<longleftrightarrow> (- int ?n \<le> t \<and> t < int ?n)"
    by auto
  show ?thesis
    unfolding one_hot_output_def set_row_def zeros_def Let_def option.case length_replicate range
    using row range by (simp del: replicate.simps)
qed

lemma one_hot_output_valid:
  "(\<exists>one_hot. one_hot_output out tc = Inr one_hot) \<longleftrightarrow> valid_target out tc"
  by (cases tc) (simp_all add: valid_target_def one_hot_output_Some, simp add: one_hot_output_def)

lemma one_hot_output_invalid:
  "\<not> valid_target out tc \<Longrightarrow> one_hot_output out tc = Inl IndexError"
  by (cases tc) (simp_all add: valid_target_def one_hot_output_Some)

lemma postprocessed_cases:
  "postprocessed (PyStr ''abs'') g = Inr (map abs g)"
  "postprocessed (PyStr ''square'') g = Inr (map (\<lambda>x. x ^ 2) g)"
  "postprocessed PyNone g = Inr g"
  "pp \<notin> {PyStr ''abs'', PyStr ''square'', PyNone} \<Longrightarrow> postprocessed pp g = Inl ValueError"
  by (simp_all add: postprocessed_def)

lemma postprocessed_raises:
  "(\<exists>e. postprocessed pp g = Inl e) \<longleftrightarrow> pp \<notin> {PyStr ''abs'', PyStr ''square'', PyNone}"
  by (auto simp: postprocessed_def)

lemma argmax_0 [simp]: "argmax f 0 = 0"
  by (simp add: argmax_def)





lemma length_set_rows [simp]: "length (set_rows oh cs) = length oh"
  unfolding set_rows_def by (induction cs arbitrary: oh) simp_all




text \<open>
  Claim C1, as the code has it.  When \<^verbatim>\<open>target_class\<close> is absent or inside the class
  dimension, \<^verbatim>\<open>sensitivity_analysis\<close> raises if and only if \<^verbatim>\<open>postprocess\<close> is none
  of \<^verbatim>\<open>'abs'\<close>, \<^verbatim>\<open>'square'\<close> and \<^verbatim>\<open>None\<close>, and then it raises
  \<^verbatim>\<open>ValueError\<close>; for \<^verbatim>\<open>'abs'\<close> it returns the absolute values of the gradient, for
  \<^verbatim>\<open>'square'\<close> the squares, for \<^verbatim>\<open>None\<close> the gradient itself.  When
  \<^verbatim>\<open>target_class\<close> is outside the class dimension, the assignment to the one-hot tensor
  raises \<^verbatim>\<open>IndexError\<close>, whatever \<^verbatim>\<open>postprocess\<close> is.
\<close>

theorem sensitivity_analysis_outcome:
  "(valid_target (forward modl (unsqueeze0 image_tensor)) target_class \<longrightarrow>
      (\<exists>one_hot.
         one_hot_output (forward modl (unsqueeze0 image_tensor)) target_class = Inr one_hot \<and>
         sensitivity_analysis modl image_tensor target_class (PyStr ''abs'') =
           Some ([Forward [unsqueeze0 image_tensor]],
                 Inr (map abs (backward modl (unsqueeze0 image_tensor) one_hot))) \<and>
         sensitivity_analysis modl image_tensor target_class (PyStr ''square'') =
           Some ([Forward [unsqueeze0 image_tensor]],
                 Inr (map (\<lambda>x. x ^ 2) (backward modl (unsqueeze0 image_tensor) one_hot))) \<and>
         sensitivity_analysis modl image_tensor target_class PyNone =
           Some ([Forward [unsqueeze0 image_tensor]],
                 Inr (backward modl (unsqueeze0 image_tensor) one_hot))) \<and>
      (postprocess \<notin> {PyStr ''abs'', PyStr ''square'', PyNone} \<longrightarrow>
         sensitivity_analysis modl image_tensor target_class postprocess =
           Some ([Forward [unsqueeze0 image_tensor]], Inl ValueError)) \<and>
      ((\<exists>evs e. sensitivity_analysis modl image_tensor target_class postprocess = Some (evs, Inl e)) \<longleftrightarrow>
         postprocess \<notin> {PyStr ''abs'', PyStr ''square'', PyNone})) \<and>
   (\<not> valid_target (forward modl (unsqueeze0 image_tensor)) target_class \<longrightarrow>
      sensitivity_analysis modl image_tensor target_class postprocess =
        Some ([Forward [unsqueeze0 image_tensor]], Inl IndexError))"
proof (cases "valid_target (forward modl (unsqueeze0 image_tensor)) target_class")
  case True
  then obtain one_hot where
    oh: "one_hot_output (forward modl (unsqueeze0 image_tensor)) target_class = Inr one_hot"
    using one_hot_output_valid by blast
  have raises: "(\<exists>evs e. sensitivity_analysis modl image_tensor target_class postprocess = Some (evs, Inl e)) \<longleftrightarrow>
         postprocess \<notin> {PyStr ''abs'', PyStr ''square'', PyNone}"
    unfolding sensitivity_analysis_eq oh
    using postprocessed_raises [of postprocess "backward modl (unsqueeze0 image_tensor) one_hot"]
    by simp
  show ?thesis
    using True raises
    by (simp add: sensitivity_analysis_eq oh postprocessed_cases)
next
  case False
  then show ?thesis
    by (simp add: sensitivity_analysis_eq one_hot_output_invalid)
qed

lemma example_forward:
  "forward example_model X = \<lparr>extra_classes = 1, positions = 2, score = (\<lambda>c p. if c = 0 then 1 else 0)\<rparr>"
  by (simp add: example_model_def)

lemma example_valid_None: "valid_target (forward example_model X) None"
  by (simp add: valid_target_def)

lemma example_invalid_5: "\<not> valid_target (forward example_model X) (Some 5)"
  by (simp add: valid_target_def example_forward n_classes_def)

lemma example_one_hot:
  "one_hot_output \<lparr>extra_classes = 1, positions = 2, score = (\<lambda>c p. if c = 0 then 1 else 0)\<rparr> None =
     Inr [[1, 1], [0, 0]]"
  by code_simp

lemma example_backward: "backward example_model X [[1, 1], [0, 0]] = [- 2, 3]"
  by (simp add: example_model_def)

theorem sensitivity_analysis_outcome_witness:
  "sensitivity_analysis example_model example_image None (PyStr ''abs'') =
     Some ([Forward [\<lparr>shape = [1, 1, 1, 2], entries = [5, 7]\<rparr>]], Inr [2, 3]) \<and>
   sensitivity_analysis example_model example_image None (PyStr ''square'') =
     Some ([Forward [\<lparr>shape = [1, 1, 1, 2], entries = [5, 7]\<rparr>]], Inr [4, 9]) \<and>
   sensitivity_analysis example_model example_image None PyNone =
     Some ([Forward [\<lparr>shape = [1, 1, 1, 2], entries = [5, 7]\<rparr>]], Inr [- 2, 3]) \<and>
   sensitivity_analysis example_model example_image None (PyStr ''relu'') =
     Some ([Forward [\<lparr>shape = [1, 1, 1, 2], entries = [5, 7]\<rparr>]], Inl ValueError) \<and>
   sensitivity_analysis example_model example_image (Some 5) (PyStr ''relu'') =
     Some ([Forward [\<lparr>shape = [1, 1, 1, 2], entries = [5, 7]\<rparr>]], Inl IndexError)"
proof -
  let ?X = "unsqueeze0 example_image"
  have X: "?X = \<lparr>shape = [1, 1, 1, 2], entries = [5, 7]\<rparr>"
    by (simp add: unsqueeze0_def example_image_def)
  have relu: "PyStr ''relu'' \<notin> {PyStr ''abs'', PyStr ''square'', PyNone}" by simp
  note none = sensitivity_analysis_outcome [of example_model example_image None "PyStr ''relu''",
      THEN conjunct1, THEN mp, OF example_valid_None]
  from none [THEN conjunct1] obtain one_hot where
    oh: "one_hot_output (forward example_model ?X) None = Inr one_hot" and
    a: "sensitivity_analysis example_model example_image None (PyStr ''abs'') =
          Some ([Forward [?X]], Inr (map abs (backward example_model ?X one_hot)))" and
    s: "sensitivity_analysis example_model example_image None (PyStr ''square'') =
          Some ([Forward [?X]], Inr (map (\<lambda>x. x ^ 2) (backward example_model ?X one_hot)))" and
    n: "sensitivity_analysis example_model example_image None PyNone =
          Some ([Forward [?X]], Inr (backward example_model ?X one_hot))"
    by (elim exE conjE) (rule that; assumption)
  from none [THEN conjunct2, THEN conjunct1, THEN mp, OF relu]
  have v: "sensitivity_analysis example_model example_image None (PyStr ''relu'') =
          Some ([Forward [?X]], Inl ValueError)" .
  from oh have "one_hot = [[1, 1], [0, 0]]"
    unfolding example_forward example_one_hot by simp
  then have g: "backward example_model Y one_hot = [- 2, 3]" for Y
    by (simp add: example_backward)
  from sensitivity_analysis_outcome [of example_model example_image "Some 5" "PyStr ''relu''",
      THEN conjunct2, THEN mp, OF example_invalid_5]
  have i: "sensitivity_analysis example_model example_image (Some 5) (PyStr ''relu'') =
          Some ([Forward [?X]], Inl IndexError)" .
  show ?thesis
    unfolding a s n v i g X by simp
qed

text \<open>
  The claim as it is written fails: with a supported \<^verbatim>\<open>postprocess\<close> the call still
  raises, when \<^verbatim>\<open>target_class\<close> is 5 and the output has two classes.
\<close>

theorem sensitivity_analysis_target_counterexample:
  "sensitivity_analysis example_model example_image (Some 5) (PyStr ''abs'') =
     Some ([Forward [\<lparr>shape = [1, 1, 1, 2], entries = [5, 7]\<rparr>]], Inl IndexError)"
  by (simp add: sensitivity_analysis_eq one_hot_output_invalid example_invalid_5
        unsqueeze0_def example_image_def)












section \<open>Properties of \<^verbatim>\<open>parse_args\<close>\<close>










lemma decimal_examples:
  "decimal ''x'' = None" "decimal ''2'' = Some 2" "decimal ''-5'' = Some (- 5)"
  by (simp_all add: digit_value_def)



section \<open>Properties of \<^verbatim>\<open>block_filters\<close>\<close>

lemma all_children_eq: "all_children modl = named_modules modl"
proof -
  have "fold (\<lambda>child children. children @ [child]) xs acc = acc @ xs"
    for xs acc :: "(string \<times> block) list"
    by (induction xs arbitrary: acc) simp_all
  from this [of "named_modules modl" "[]"] show ?thesis by (simp add: all_children_def)
qed

lemma down_pass_completes:
  assumes "n \<le> length down_list" "length dep_list = k" "0 < k"
    and "\<forall>t\<in>set dep_list. P t" "\<forall>b\<in>set down_list. \<forall>t. P t \<longrightarrow> P (call1 b t)"
    and "\<forall>j<k. I j (dep_list ! j)" "\<forall>j<n. \<forall>t. I j (call1 (down_list ! j) t)"
  shows "completes_with (down_pass down_list [k..<n] dep_list)
           (\<lambda>evs dl. length dl = max k n \<and> saved evs = [] \<and>
                      (\<forall>t\<in>set (forwarded evs). P t) \<and> (\<forall>t\<in>set dl. P t) \<and>
                      (\<forall>j<length dl. I j (dl ! j)))"
  using assms
proof (induction "n - k" arbitrary: k dep_list)
  case 0
  then have "[k..<n] = []" by simp
  with 0 show ?case by (simp add: completes_ret max_def)
next
  case (Suc d)
  then have kn: "k < n" and rec: "[k..<n] = k # [Suc k..<n]"
    by (simp_all add: upt_rec)
  let ?blk = "down_list ! k" and ?prev = "dep_list ! (k - 1)"
  from kn Suc.prems have blk: "py_index down_list k = Inr ?blk" and mem: "?blk \<in> set down_list"
    by (simp_all add: py_index_def)
  from Suc.prems have prev: "py_index dep_list (k - 1) = Inr ?prev" and Pprev: "P ?prev"
    by (simp_all add: py_index_def)
  from mem Pprev Suc.prems have Pnew: "P (call1 ?blk ?prev)" by blast
  from kn Suc.prems have Inew: "I k (call1 ?blk ?prev)" by blast
  with Suc.prems have Iall: "\<forall>j<Suc k. I j ((dep_list @ [call1 ?blk ?prev]) ! j)"
    by (auto simp: nth_append less_Suc_eq)
  have IH: "completes_with (down_pass down_list [Suc k..<n] (dep_list @ [call1 ?blk ?prev]))
           (\<lambda>evs dl. length dl = max (Suc k) n \<and> saved evs = [] \<and>
                      (\<forall>t\<in>set (forwarded evs). P t) \<and> (\<forall>t\<in>set dl. P t) \<and>
                      (\<forall>j<length dl. I j (dl ! j)))"
    using Suc.hyps(2) Suc.prems Pnew Iall by (intro Suc.hyps(1)) auto
  have step: "down_pass down_list [k..<n] dep_list =
      and_then (emit (Forward [?prev])) (\<lambda>_. down_pass down_list [Suc k..<n] (dep_list @ [call1 ?blk ?prev]))"
    unfolding rec down_pass.simps blk prev by simp
  show ?case
    unfolding step
  proof (rule completes_and_then [where Q = "\<lambda>evs _. evs = [Forward [?prev]]"])
    show "completes_with (emit (Forward [?prev])) (\<lambda>evs _. evs = [Forward [?prev]])"
      by (rule completes_emit) simp
  next
    fix evs and a :: unit
    assume "evs = [Forward [?prev]]"
    with IH kn Pprev show "completes_with (down_pass down_list [Suc k..<n] (dep_list @ [call1 ?blk ?prev]))
        (\<lambda>evs' b. length b = max k n \<and> saved (evs @ evs') = [] \<and>
                    (\<forall>t\<in>set (forwarded (evs @ evs')). P t) \<and> (\<forall>t\<in>set b. P t) \<and>
                    (\<forall>j<length b. I j (b ! j)))"
      by (elim completes_weaken) (auto simp: max_def)
  qed
qed

lemma funpow_keeps: "\<forall>t. P t \<longrightarrow> P (f t) \<Longrightarrow> P t \<Longrightarrow> P ((f ^^ n) t)"
  by (induction n) simp_all

lemma up_pass_completes:
  assumes "0 < u \<longrightarrow> 2 \<le> dep" "u \<le> length reversed_uplist" "u < length dep_list"
    and "\<forall>t\<in>set dep_list. P t" "\<forall>t. P t \<longrightarrow> P (pool t)"
    and "length up_block = j" "\<forall>i<j. J i (up_block ! i)"
    and "\<forall>i<u. \<forall>t bridge. J i (call2 (reversed_uplist ! i) t bridge)"
  shows "completes_with (up_pass pool dep reversed_uplist dep_list [j..<u] up_block)
           (\<lambda>evs ub. length ub = length up_block + (u - j) \<and> saved evs = [] \<and>
                      (\<forall>t\<in>set (forwarded evs). P t) \<and> (\<forall>i<length ub. J i (ub ! i)))"
  using assms
proof (induction "u - j" arbitrary: j up_block)
  case 0
  then have "[j..<u] = []" by simp
  with 0 show ?case by (simp add: completes_ret)
next
  case (Suc d)
  then have ju: "j < u" and rec: "[j..<u] = j # [Suc j..<u]"
    by (simp_all add: upt_rec)
  let ?d = "dep_list ! Suc j" and ?blk = "reversed_uplist ! j" and ?bridge = "dep_list ! j"
  let ?pools = "(pool ^^ nat (dep - 1)) ?d"
  from ju Suc.prems have d: "py_index dep_list (j + 1) = Inr ?d" and Pd: "P ?d"
    by (simp_all add: py_index_def)
  from ju Suc.prems have pools: "do_pooling pool dep ?d = Some ?pools"
    by (simp add: do_pooling_returns)
  from ju Suc.prems have blk: "py_index reversed_uplist j = Inr ?blk"
    by (simp add: py_index_def)
  from ju Suc.prems have bridge: "py_index dep_list j = Inr ?bridge" and Pbridge: "P ?bridge"
    by (simp_all add: py_index_def)
  from Suc.prems(5) Pd have Ppools: "P ?pools" by (rule funpow_keeps)
  from Pbridge Suc.prems have Ppooled: "P (pool ?bridge)" by simp
  from ju Suc.prems have Jnew: "J j (call2 ?blk ?pools (pool ?bridge))" by blast
  with Suc.prems have Jall: "\<forall>i<Suc j. J i ((up_block @ [call2 ?blk ?pools (pool ?bridge)]) ! i)"
    by (auto simp: nth_append less_Suc_eq)
  have IH: "completes_with
      (up_pass pool dep reversed_uplist dep_list [Suc j..<u] (up_block @ [call2 ?blk ?pools (pool ?bridge)]))
      (\<lambda>evs ub. length ub = length (up_block @ [call2 ?blk ?pools (pool ?bridge)]) + (u - Suc j) \<and>
                 saved evs = [] \<and> (\<forall>t\<in>set (forwarded evs). P t) \<and> (\<forall>i<length ub. J i (ub ! i)))"
    using Suc.hyps(2) Suc.prems Jall by (intro Suc.hyps(1)) auto
  have step: "up_pass pool dep reversed_uplist dep_list [j..<u] up_block =
      and_then (emit (Forward [?pools, pool ?bridge]))
        (\<lambda>_. up_pass pool dep reversed_uplist dep_list [Suc j..<u]
                (up_block @ [call2 ?blk ?pools (pool ?bridge)]))"
    unfolding rec up_pass.simps d blk bridge by (simp add: pools)
  show ?case
    unfolding step
  proof (rule completes_and_then [where Q = "\<lambda>evs _. evs = [Forward [?pools, pool ?bridge]]"])
    show "completes_with (emit (Forward [?pools, pool ?bridge]))
        (\<lambda>evs _. evs = [Forward [?pools, pool ?bridge]])"
      by (rule completes_emit) simp
  next
    fix evs and a :: unit
    assume "evs = [Forward [?pools, pool ?bridge]]"
    with IH ju Ppools Ppooled show "completes_with
        (up_pass pool dep reversed_uplist dep_list [Suc j..<u] (up_block @ [call2 ?blk ?pools (pool ?bridge)]))
        (\<lambda>evs' b. length b = length up_block + (u - j) \<and> saved (evs @ evs') = [] \<and>
                    (\<forall>t\<in>set (forwarded (evs @ evs')). P t) \<and> (\<forall>i<length b. J i (b ! i)))"
      by (elim completes_weaken) auto
  qed
qed

lemma hd_get_values_mem: "key \<in> fst ` set cl \<Longrightarrow> hd (get_values cl key) \<in> set cl"
proof -
  assume "key \<in> fst ` set cl"
  then have "get_values cl key \<noteq> []" by (simp add: get_values_empty)
  then have "hd (get_values cl key) \<in> set (get_values cl key)" by simp
  then show ?thesis by (simp add: get_values_def)
qed

lemma saved_map_Savefig [simp]: "saved (map (\<lambda>m. Savefig (f m)) xs) = map f xs"
  by (induction xs) simp_all

lemma forwarded_map_Savefig [simp]: "forwarded (map (\<lambda>m. Savefig (f m)) xs) = []"
  by (induction xs) simp_all

lemma completes_outcome: "completes_with m Q \<Longrightarrow> outcome m Q E"
  unfolding completes_with_def outcome_def by auto

lemma outcome_and_then:
  assumes "outcome m Q E'"
    and "\<And>evs e. E' evs e \<Longrightarrow> E evs e"
    and "\<And>evs a. Q evs a \<Longrightarrow> outcome (f a) (\<lambda>evs' b. R (evs @ evs') b) (\<lambda>evs' e. E (evs @ evs') e)"
  shows "outcome (and_then m f) R E"
proof -
  from assms(1) obtain evs r where m: "m = Some (evs, r)"
    and r: "case r of Inr a \<Rightarrow> Q evs a | Inl e \<Rightarrow> E' evs e"
    unfolding outcome_def by blast
  show ?thesis
  proof (cases r)
    case (Inl e)
    with r assms(2) have "E evs e" by simp
    with m Inl show ?thesis by (simp add: outcome_def)
  next
    case (Inr a)
    with r have "Q evs a" by simp
    from assms(3) [OF this] obtain evs' r' where f: "f a = Some (evs', r')"
      and r': "case r' of Inr b \<Rightarrow> R (evs @ evs') b | Inl e \<Rightarrow> E (evs @ evs') e"
      unfolding outcome_def by blast
    with m Inr show ?thesis by (simp add: outcome_def)
  qed
qed

lemma outcome_weaken:
  "outcome m Q E \<Longrightarrow> (\<And>evs a. Q evs a \<Longrightarrow> Q' evs a) \<Longrightarrow> (\<And>evs e. E evs e \<Longrightarrow> E' evs e) \<Longrightarrow>
   outcome m Q' E'"
proof -
  assume m: "outcome m Q E" and q: "\<And>evs a. Q evs a \<Longrightarrow> Q' evs a"
    and e: "\<And>evs e. E evs e \<Longrightarrow> E' evs e"
  from m obtain evs r where ev: "m = Some (evs, r)"
    and r: "case r of Inr a \<Rightarrow> Q evs a | Inl e \<Rightarrow> E evs e"
    unfolding outcome_def by blast
  from r q e have "case r of Inr a \<Rightarrow> Q' evs a | Inl e \<Rightarrow> E' evs e"
    by (cases r) simp_all
  with ev show ?thesis unfolding outcome_def by blast
qed

lemma channel_eq: "channel blk i = (if i < channels blk then Inr () else Inl IndexError)"
  by (auto simp: channel_def channels_def split: list.splits)

lemma show_channels_eq:
  "show_channels blk idx =
     (if \<forall>i\<in>set idx. i < channels blk then Some ([], Inr ()) else Some ([], Inl IndexError))"
  by (induction idx) (auto simp: channel_eq ret_def)

lemma plot_block_eq:
  "plot_block a blk sz name =
     (if nat sz \<le> channels blk
      then Some ([Savefig (block_filter_png (interpret_path a) name sz)], Inr ())
      else Some ([], Inl IndexError))"
proof -
  have "(\<forall>i\<in>set (py_range sz). i < channels blk) \<longleftrightarrow> nat sz \<le> channels blk"
    by (auto simp: py_range_def)
  then show ?thesis
    by (simp add: plot_block_def show_channels_eq emit_def block_filter_png_def)
qed

lemma plot_blocks_eq:
  "\<forall>(j, m)\<in>set jms. j < length blocks \<Longrightarrow>
   plot_blocks a blocks jms name =
     Some (map (\<lambda>(j, m). Savefig (block_filter_png (interpret_path a) name m))
             (takeWhile (\<lambda>(j, m). nat m \<le> channels (blocks ! j)) jms),
           if \<forall>(j, m)\<in>set jms. nat m \<le> channels (blocks ! j) then Inr () else Inl IndexError)"
proof (induction jms)
  case Nil
  then show ?case by (simp add: ret_def)
next
  case (Cons jm jms)
  obtain j m where jm: "jm = (j, m)" by (cases jm)
  with Cons.prems have j: "py_index blocks j = Inr (blocks ! j)"
    by (simp add: py_index_def)
  from Cons have IH: "plot_blocks a blocks jms name =
     Some (map (\<lambda>(j, m). Savefig (block_filter_png (interpret_path a) name m))
             (takeWhile (\<lambda>(j, m). nat m \<le> channels (blocks ! j)) jms),
           if \<forall>(j, m)\<in>set jms. nat m \<le> channels (blocks ! j) then Inr () else Inl IndexError)"
    by simp
  show ?case
    unfolding jm plot_blocks.simps j and_then_lift_Inr plot_block_eq IH
    by simp
qed

lemma saved_map_pair [simp]:
  "saved (map (\<lambda>(j, m). Savefig (f m)) jms) = map f (map snd jms)"
  by (induction jms) auto

lemma forwarded_map_pair [simp]: "forwarded (map (\<lambda>(j, m). Savefig (f m)) jms) = []"
  by (induction jms) auto

lemma plot_blocks_zip:
  assumes "n \<le> length blocks"
  shows "outcome (plot_blocks a blocks (zip [0..<n] sizes) name)
     (\<lambda>evs _. saved evs = map (block_filter_png (interpret_path a) name) (take n sizes) \<and>
                forwarded evs = [])
     (\<lambda>evs e. e = IndexError \<and>
                prefix (saved evs) (map (block_filter_png (interpret_path a) name) (take n sizes)) \<and>
                forwarded evs = [] \<and>
                (\<exists>j. j < n \<and> j < length sizes \<and> \<not> nat (sizes ! j) \<le> channels (blocks ! j)))"
proof -
  let ?jms = "zip [0..<n] sizes"
  let ?ok = "\<lambda>(j, m). nat m \<le> channels (blocks ! j)"
  have idx: "\<forall>(j, m)\<in>set ?jms. j < length blocks"
    using assms by (auto dest: set_zip_leftD)
  have snd: "map snd ?jms = take n sizes"
    by (simp add: map_snd_zip_take min_def)
  have pre: "prefix (map (block_filter_png (interpret_path a) name) (map snd (takeWhile ?ok ?jms)))
      (map (block_filter_png (interpret_path a) name) (take n sizes))"
    unfolding snd [symmetric] by (intro map_mono_prefix takeWhile_is_prefix)
  have bad: "\<exists>j. j < n \<and> j < length sizes \<and> \<not> nat (sizes ! j) \<le> channels (blocks ! j)"
    if "\<not> (\<forall>(j, m)\<in>set ?jms. nat m \<le> channels (blocks ! j))"
  proof -
    from that obtain j m where mem: "(j, m) \<in> set ?jms" and few: "\<not> nat m \<le> channels (blocks ! j)"
      by auto
    from mem obtain i where "[0..<n] ! i = j" "sizes ! i = m" "i < n" "i < length sizes"
      by (auto simp: in_set_zip)
    with few show ?thesis by auto
  qed
  show ?thesis
  proof (cases "\<forall>(j, m)\<in>set ?jms. nat m \<le> channels (blocks ! j)")
    case True
    then have tw: "takeWhile ?ok ?jms = ?jms" by (simp add: takeWhile_eq_all_conv)
    have "saved (map (\<lambda>(j, m). Savefig (block_filter_png (interpret_path a) name m)) ?jms) =
        map (block_filter_png (interpret_path a) name) (take n sizes)"
      unfolding saved_map_pair snd ..
    moreover have "plot_blocks a blocks ?jms name =
        Some (map (\<lambda>(j, m). Savefig (block_filter_png (interpret_path a) name m)) ?jms, Inr ())"
      unfolding plot_blocks_eq [OF idx] tw by (subst if_P [OF True]) (rule refl)
    ultimately show ?thesis
      unfolding outcome_def by simp
  next
    case False
    have "prefix (saved (map (\<lambda>(j, m). Savefig (block_filter_png (interpret_path a) name m))
          (takeWhile ?ok ?jms)))
        (map (block_filter_png (interpret_path a) name) (take n sizes))"
      unfolding saved_map_pair by (rule pre)
    moreover have "plot_blocks a blocks ?jms name =
        Some (map (\<lambda>(j, m). Savefig (block_filter_png (interpret_path a) name m))
                (takeWhile ?ok ?jms), Inl IndexError)"
      unfolding plot_blocks_eq [OF idx] by (subst if_not_P [OF False]) (rule refl)
    ultimately show ?thesis
      using bad [OF False] unfolding outcome_def by simp
  qed
qed

lemma block_filters_raises:
  assumes "\<not> (blocks_named modl a \<and> 1 \<le> depth a)"
  shows "block_filters ext modl img_path a = Some ([], Inl IndexError)"
proof (cases "blocks_named modl a")
  case False
  then have "get_block_list (named_modules modl) a = Inl IndexError"
    unfolding blocks_named_def by (simp add: get_block_list_eq)
  then show ?thesis
    by (simp add: block_filters_def Let_def all_children_eq)
next
  case True
  with assms have "nat (depth a) = 0" "nat (depth a - 1) = 0" by simp_all
  with True have "get_block_list (named_modules modl) a = Inr ([], [])"
    unfolding blocks_named_def by (simp add: get_block_list_eq)
  then show ?thesis
    by (simp add: block_filters_def Let_def all_children_eq py_index_def)
qed

lemma batch_of_one_unsqueeze0 [simp]: "batch_of_one (unsqueeze0 t)"
  by (simp add: batch_of_one_def unsqueeze0_def)

text \<open>
  Claim C3, as the code has it.  \<^verbatim>\<open>block_filters\<close> runs to its end exactly when the depth
  is at least 1 and the model has a module of every name \<^verbatim>\<open>get_block_list\<close> looks up.
  Then the down-block plots are \<open>min depth 3\<close> in number, with the sizes of the fixed list
  \<open>[64, 128, 256]\<close> in order, and the up-block plots are \<open>min (depth - 1) 2\<close> in number,
  with the sizes of the fixed list \<open>[16, 32]\<close> in order, whatever the block outputs are.
  Otherwise it raises \<^verbatim>\<open>IndexError\<close> before any plot.
\<close>

lemma block_filters_outcome:
  assumes named: "blocks_named modl a" and depth: "1 \<le> depth a"
    and input: "P (unsqueeze0 (fst (load_image ext img_path a)))"
    and pool: "\<forall>t. P t \<longrightarrow> P (avg_pool2d ext t)"
    and blocks: "\<forall>b \<in> snd ` set (named_modules modl). \<forall>t. P t \<longrightarrow> P (call1 b t)"
    and downs: "\<forall>j < nat (depth a). \<forall>t.
        I j (call1 (snd (hd (get_values (named_modules modl) (''down_path.'' @ str_nat j)))) t)"
    and ups: "\<forall>i < nat (depth a - 1). \<forall>t bridge.
        J i (call2 (snd (hd (get_values (named_modules modl)
               (''up_path.'' @ str_nat (nat (depth a - 1) - Suc i))))) t bridge)"
  shows "outcome (block_filters ext modl img_path a)
     (\<lambda>evs _. saved evs =
          map (block_filter_png (interpret_path a) ''down'') (take (nat (depth a)) [64, 128, 256]) @
          map (block_filter_png (interpret_path a) ''up'') (take (nat (depth a - 1)) [16, 32]) \<and>
        (\<forall>t\<in>set (forwarded evs). P t) \<and>
        (\<exists>rest. evs = Forward [unsqueeze0 (fst (load_image ext img_path a))] # rest))
     (\<lambda>evs e. e = IndexError \<and>
        prefix (saved evs)
         (map (block_filter_png (interpret_path a) ''down'') (take (nat (depth a)) [64, 128, 256]) @
          map (block_filter_png (interpret_path a) ''up'') (take (nat (depth a - 1)) [16, 32])) \<and>
        (\<forall>t\<in>set (forwarded evs). P t) \<and>
        (\<exists>rest. evs = Forward [unsqueeze0 (fst (load_image ext img_path a))] # rest) \<and>
        \<not> ((\<forall>j < min (nat (depth a)) 3. \<forall>t. I j t \<longrightarrow> nat ([64, 128, 256] ! j) \<le> channels t) \<and>
           (\<forall>i < min (nat (depth a - 1)) 2. \<forall>t. J i t \<longrightarrow> nat ([16, 32] ! i) \<le> channels t)))"
proof -
  let ?cl = "named_modules modl"
  let ?downs = "map (\<lambda>y. snd (hd (get_values ?cl (''down_path.'' @ str_nat y)))) [0..<nat (depth a)]"
  let ?ups = "map (\<lambda>y. snd (hd (get_values ?cl (''up_path.'' @ str_nat y)))) [0..<nat (depth a - 1)]"
  let ?input = "unsqueeze0 (fst (load_image ext img_path a))"
  let ?pool = "avg_pool2d ext"
  let ?n = "nat (depth a)" and ?u = "nat (depth a - 1)"
  let ?dir = "interpret_path a"
  let ?dn = "map (block_filter_png ?dir ''down'') (take ?n [64, 128, 256])"
  let ?un = "map (block_filter_png ?dir ''up'') (take ?u [16, 32])"
  let ?suff = "(\<forall>j < min ?n 3. \<forall>t. I j t \<longrightarrow> nat ([64, 128, 256] ! j) \<le> channels t) \<and>
      (\<forall>i < min ?u 2. \<forall>t. J i t \<longrightarrow> nat ([16, 32] ! i) \<le> channels t)"
  from named have gbl: "get_block_list ?cl a = Inr (?downs, ?ups)"
    unfolding blocks_named_def by (simp add: get_block_list_eq)
  from depth have n: "0 < ?n" and un: "?u < ?n" by simp_all
  have first: "py_index ?downs 0 = Inr (?downs ! 0)"
    using n by (simp add: py_index_def)
  have downs_mem: "\<forall>b\<in>set ?downs. b \<in> snd ` set ?cl"
    using named unfolding blocks_named_def by (auto intro!: imageI hd_get_values_mem)
  from downs_mem blocks
  have downs_keep: "\<forall>b\<in>set ?downs. \<forall>t. P t \<longrightarrow> P (call1 b t)" by blast
  from downs have downs_give: "\<forall>j < ?n. \<forall>t. I j (call1 (?downs ! j) t)"
    by simp
  from ups have ups_give: "\<forall>i < ?u. \<forall>t bridge. J i (call2 (rev ?ups ! i) t bridge)"
    by (simp add: rev_nth)
  have "?downs ! 0 \<in> set ?downs" using n by (intro nth_mem) simp
  with downs_mem blocks input have first_out: "P (call1 (?downs ! 0) ?input)" by blast
  from downs_give n have first_I: "I 0 (call1 (?downs ! 0) ?input)" by blast
  have body: "block_filters ext modl img_path a =
      and_then (emit (Forward [?input])) (\<lambda>_.
      and_then (down_pass ?downs [1..<length ?downs] [call1 (?downs ! 0) ?input]) (\<lambda>dep_list.
      and_then (plot_blocks a dep_list (zip [0..<length dep_list] [64, 128, 256]) ''down'') (\<lambda>_.
      and_then (up_pass ?pool (depth a) (rev ?ups) dep_list [0..<length ?ups] []) (\<lambda>up_block.
      plot_blocks a up_block (zip [0..<length ?ups] [16, 32]) ''up''))))"
    unfolding block_filters_def Let_def all_children_eq gbl and_then_lift_Inr prod.case first ..
  let ?Q = "\<lambda>evs. saved evs = ?dn @ ?un \<and> (\<forall>t\<in>set (forwarded evs). P t) \<and>
      (\<exists>rest. evs = Forward [?input] # rest)"
  let ?E = "\<lambda>evs e. e = IndexError \<and> prefix (saved evs) (?dn @ ?un) \<and>
      (\<forall>t\<in>set (forwarded evs). P t) \<and> (\<exists>rest. evs = Forward [?input] # rest) \<and> \<not> ?suff"
  have "outcome (block_filters ext modl img_path a) (\<lambda>evs _. ?Q evs) ?E"
    unfolding body
  proof (rule outcome_and_then [where Q = "\<lambda>evs _. evs = [Forward [?input]]" and E' = "\<lambda>_ _. False"])
    show "outcome (emit (Forward [?input])) (\<lambda>evs _. evs = [Forward [?input]]) (\<lambda>_ _. False)"
      by (rule completes_outcome, rule completes_emit) simp
  next
    fix evs e assume False then show "?E evs e" ..
  next
    fix evs1 and u1 :: unit
    assume evs1: "evs1 = [Forward [?input]]"
    have down: "outcome (down_pass ?downs [1..<length ?downs] [call1 (?downs ! 0) ?input])
        (\<lambda>evs dl. length dl = max 1 (length ?downs) \<and> saved evs = [] \<and>
                   (\<forall>t\<in>set (forwarded evs). P t) \<and> (\<forall>t\<in>set dl. P t) \<and>
                   (\<forall>j<length dl. I j (dl ! j))) (\<lambda>_ _. False)"
      using first_out first_I downs_keep downs_give
      by (intro completes_outcome down_pass_completes) simp_all
    show "outcome
        (and_then (down_pass ?downs [1..<length ?downs] [call1 (?downs ! 0) ?input]) (\<lambda>dep_list.
         and_then (plot_blocks a dep_list (zip [0..<length dep_list] [64, 128, 256]) ''down'') (\<lambda>_.
         and_then (up_pass ?pool (depth a) (rev ?ups) dep_list [0..<length ?ups] []) (\<lambda>up_block.
         plot_blocks a up_block (zip [0..<length ?ups] [16, 32]) ''up''))))
        (\<lambda>evs' b. ?Q (evs1 @ evs')) (\<lambda>evs' e. ?E (evs1 @ evs') e)"
    proof (rule outcome_and_then [OF down])
      fix evs e assume False then show "?E (evs1 @ evs) e" ..
    next
      fix evs2 and dep_list :: "tensor list"
      assume "length dep_list = max 1 (length ?downs) \<and> saved evs2 = [] \<and>
              (\<forall>t\<in>set (forwarded evs2). P t) \<and> (\<forall>t\<in>set dep_list. P t) \<and>
              (\<forall>j<length dep_list. I j (dep_list ! j))"
      with n have len: "length dep_list = ?n" and s2: "saved evs2 = []"
        and f2: "\<forall>t\<in>set (forwarded evs2). P t" and Pdl: "\<forall>t\<in>set dep_list. P t"
        and Idl: "\<forall>j<length dep_list. I j (dep_list ! j)"
        by (simp_all add: max_def)
      have plot_down: "outcome
          (plot_blocks a dep_list (zip [0..<length dep_list] [64, 128, 256]) ''down'')
          (\<lambda>evs _. saved evs = map (block_filter_png ?dir ''down'') (take (length dep_list) [64, 128, 256]) \<and>
                     forwarded evs = [])
          (\<lambda>evs e. e = IndexError \<and>
                prefix (saved evs) (map (block_filter_png ?dir ''down'') (take (length dep_list) [64, 128, 256])) \<and>
                forwarded evs = [] \<and>
                (\<exists>j. j < length dep_list \<and> j < length [64, 128, 256 :: int] \<and>
                     \<not> nat ([64, 128, 256] ! j) \<le> channels (dep_list ! j)))"
        by (rule plot_blocks_zip) simp
      show "outcome
          (and_then (plot_blocks a dep_list (zip [0..<length dep_list] [64, 128, 256]) ''down'') (\<lambda>_.
           and_then (up_pass ?pool (depth a) (rev ?ups) dep_list [0..<length ?ups] []) (\<lambda>up_block.
           plot_blocks a up_block (zip [0..<length ?ups] [16, 32]) ''up'')))
          (\<lambda>evs' b. ?Q (evs1 @ evs2 @ evs')) (\<lambda>evs' e. ?E (evs1 @ evs2 @ evs') e)"
      proof (rule outcome_and_then [OF plot_down])
        fix evs3 e
        assume fail: "e = IndexError \<and>
                prefix (saved evs3) (map (block_filter_png ?dir ''down'') (take (length dep_list) [64, 128, 256])) \<and>
                forwarded evs3 = [] \<and>
                (\<exists>j. j < length dep_list \<and> j < length [64, 128, 256 :: int] \<and>
                     \<not> nat ([64, 128, 256] ! j) \<le> channels (dep_list ! j))"
        then obtain j where j: "j < length dep_list" "j < length [64, 128, 256 :: int]"
          and few: "\<not> nat ([64, 128, 256] ! j) \<le> channels (dep_list ! j)" by blast
        from j Idl have "I j (dep_list ! j)" by simp
        moreover from j have "j < min ?n 3" unfolding len by simp
        ultimately have "\<not> ?suff" using few by blast
        moreover from fail have "prefix (saved evs3) (?dn @ ?un)"
          unfolding len by (simp add: prefix_prefix)
        ultimately show "?E (evs1 @ evs2 @ evs3) e"
          using fail s2 f2 input by (auto simp: evs1)
      next
        fix evs3 and u3 :: unit
        assume "saved evs3 = map (block_filter_png ?dir ''down'') (take (length dep_list) [64, 128, 256]) \<and>
                     forwarded evs3 = []"
        then have s3: "saved evs3 = ?dn" and f3: "forwarded evs3 = []"
          unfolding len by simp_all
        have up: "outcome (up_pass ?pool (depth a) (rev ?ups) dep_list [0..<length ?ups] [])
            (\<lambda>evs ub. length ub = length ([] :: tensor list) + (length ?ups - 0) \<and> saved evs = [] \<and>
                       (\<forall>t\<in>set (forwarded evs). P t) \<and> (\<forall>i<length ub. J i (ub ! i))) (\<lambda>_ _. False)"
          using un len Pdl pool ups_give
          by (intro completes_outcome up_pass_completes) auto
        show "outcome
            (and_then (up_pass ?pool (depth a) (rev ?ups) dep_list [0..<length ?ups] []) (\<lambda>up_block.
             plot_blocks a up_block (zip [0..<length ?ups] [16, 32]) ''up''))
            (\<lambda>evs' b. ?Q (evs1 @ evs2 @ evs3 @ evs')) (\<lambda>evs' e. ?E (evs1 @ evs2 @ evs3 @ evs') e)"
        proof (rule outcome_and_then [OF up])
          fix evs e assume False then show "?E (evs1 @ evs2 @ evs3 @ evs) e" ..
        next
          fix evs4 and up_block :: "tensor list"
          assume "length up_block = length ([] :: tensor list) + (length ?ups - 0) \<and> saved evs4 = [] \<and>
                  (\<forall>t\<in>set (forwarded evs4). P t) \<and> (\<forall>i<length up_block. J i (up_block ! i))"
          then have ulen: "length up_block = ?u" and s4: "saved evs4 = []"
            and f4: "\<forall>t\<in>set (forwarded evs4). P t" and Jub: "\<forall>i<length up_block. J i (up_block ! i)"
            by simp_all
          have plot_up: "outcome
              (plot_blocks a up_block (zip [0..<length ?ups] [16, 32]) ''up'')
              (\<lambda>evs _. saved evs = map (block_filter_png ?dir ''up'') (take (length ?ups) [16, 32]) \<and>
                         forwarded evs = [])
              (\<lambda>evs e. e = IndexError \<and>
                    prefix (saved evs) (map (block_filter_png ?dir ''up'') (take (length ?ups) [16, 32])) \<and>
                    forwarded evs = [] \<and>
                    (\<exists>j. j < length ?ups \<and> j < length [16, 32 :: int] \<and>
                         \<not> nat ([16, 32] ! j) \<le> channels (up_block ! j)))"
            by (rule plot_blocks_zip) (simp add: ulen)
          show "outcome (plot_blocks a up_block (zip [0..<length ?ups] [16, 32]) ''up'')
              (\<lambda>evs' b. ?Q (evs1 @ evs2 @ evs3 @ evs4 @ evs'))
              (\<lambda>evs' e. ?E (evs1 @ evs2 @ evs3 @ evs4 @ evs') e)"
          proof (rule outcome_weaken [OF plot_up])
            fix evs5 and u5 :: unit
            assume "saved evs5 = map (block_filter_png ?dir ''up'') (take (length ?ups) [16, 32]) \<and>
                         forwarded evs5 = []"
            then have s5: "saved evs5 = ?un" and f5: "forwarded evs5 = []" by simp_all
            show "?Q (evs1 @ evs2 @ evs3 @ evs4 @ evs5)"
              using s2 s3 s4 s5 f2 f3 f4 f5 input by (auto simp: evs1)
          next
            fix evs5 e
            assume fail: "e = IndexError \<and>
                    prefix (saved evs5) (map (block_filter_png ?dir ''up'') (take (length ?ups) [16, 32])) \<and>
                    forwarded evs5 = [] \<and>
                    (\<exists>j. j < length ?ups \<and> j < length [16, 32 :: int] \<and>
                         \<not> nat ([16, 32] ! j) \<le> channels (up_block ! j))"
            then obtain j where j: "j < length ?ups" "j < length [16, 32 :: int]"
              and few: "\<not> nat ([16, 32] ! j) \<le> channels (up_block ! j)" by blast
            from j Jub ulen have "J j (up_block ! j)" by simp
            moreover from j have "j < min ?u 2" by simp
            ultimately have "\<not> ?suff" using few by blast
            moreover from fail have "prefix (saved evs5) ?un" by simp
            ultimately show "?E (evs1 @ evs2 @ evs3 @ evs4 @ evs5) e"
              using fail s2 s3 s4 f2 f3 f4 input by (auto simp: evs1)
          qed
        qed
      qed
    qed
  qed
  then show ?thesis .
qed

lemma outcome_cases [consumes 1, case_names returns raises]:
  assumes "outcome m Q E"
    and "\<And>evs a. m = Some (evs, Inr a) \<Longrightarrow> Q evs a \<Longrightarrow> thesis"
    and "\<And>evs e. m = Some (evs, Inl e) \<Longrightarrow> E evs e \<Longrightarrow> thesis"
  shows thesis
proof -
  from assms(1) obtain evs r where m: "m = Some (evs, r)"
    and c: "case r of Inr a \<Rightarrow> Q evs a | Inl e \<Rightarrow> E evs e"
    unfolding outcome_def by blast
  show thesis
  proof (cases r)
    case (Inl e)
    with m c show thesis by (intro assms(3) [of evs e]) simp_all
  next
    case (Inr a)
    with m c show thesis by (intro assms(2) [of evs a]) simp_all
  qed
qed




lemma block_filters_wide:
  assumes named: "blocks_named modl a" and depth: "1 \<le> depth a" and wide: "wide_enough modl a"
  shows "\<exists>evs. block_filters ext modl img_path a = Some (evs, Inr ())"
proof -
  let ?I = "\<lambda>j t. \<exists>t'. t = call1 (named_block modl (''down_path.'' @ str_nat j)) t'"
  let ?J = "\<lambda>i t. \<exists>t' s. t = call2 (named_block modl (''up_path.'' @ str_nat (nat (depth a - 1) - Suc i))) t' s"
  have downs: "\<forall>j < nat (depth a). \<forall>t.
        ?I j (call1 (snd (hd (get_values (named_modules modl) (''down_path.'' @ str_nat j)))) t)"
    unfolding named_block_def by blast
  have ups: "\<forall>i < nat (depth a - 1). \<forall>t bridge.
        ?J i (call2 (snd (hd (get_values (named_modules modl)
               (''up_path.'' @ str_nat (nat (depth a - 1) - Suc i))))) t bridge)"
    unfolding named_block_def by blast
  have suff: "(\<forall>j < min (nat (depth a)) 3. \<forall>t. ?I j t \<longrightarrow> nat ([64, 128, 256] ! j) \<le> channels t) \<and>
           (\<forall>i < min (nat (depth a - 1)) 2. \<forall>t. ?J i t \<longrightarrow> nat ([16, 32] ! i) \<le> channels t)"
    using wide unfolding wide_enough_def by blast
  from block_filters_outcome [where P = "\<lambda>_. True" and I = ?I and J = ?J,
      OF named depth _ _ _ downs ups, of ext img_path]
  have "outcome (block_filters ext modl img_path a) (\<lambda>evs _. True)
     (\<lambda>evs e. \<not> ((\<forall>j < min (nat (depth a)) 3. \<forall>t. ?I j t \<longrightarrow> nat ([64, 128, 256] ! j) \<le> channels t) \<and>
           (\<forall>i < min (nat (depth a - 1)) 2. \<forall>t. ?J i t \<longrightarrow> nat ([16, 32] ! i) \<le> channels t)))"
    by (rule outcome_weaken) simp_all
  then show ?thesis
  proof (cases rule: outcome_cases)
    case (returns evs u)
    then show ?thesis by simp
  next
    case (raises evs e)
    with suff show ?thesis by simp
  qed
qed


lemma str_nat_digits:
  "str_nat 0 = ''0''" "str_nat (Suc 0) = ''1''" "str_nat (Suc (Suc 0)) = ''2''"
  "str_nat (Suc (Suc (Suc 0))) = ''3''"
  by (simp_all add: str_nat.simps digit_char_def)

lemma example_names:
  "fst ` set (named_modules example_model) =
     {'''', ''down_path'', ''down_path.0'', ''down_path.0.block'', ''down_path.1'', ''down_path.2'',
      ''up_path'', ''up_path.0'', ''up_path.1'', ''last''}"
  by (simp add: example_model_def)

lemma example_blocks_named: "blocks_named example_model defaults"
proof -
  have three: "nat (depth defaults) = Suc (Suc (Suc 0))" and two: "nat (depth defaults - 1) = Suc (Suc 0)"
    by (simp_all add: defaults_def)
  show ?thesis
    unfolding blocks_named_def three two example_names
    by (simp add: All_less_Suc str_nat_digits)
qed


lemma example_block_channels:
  "channels (call1 (example_block k) t) = 256" "channels (call2 (example_block k) t bridge) = 32"
  by (simp_all add: example_block_def channels_def)

lemma example_named_block:
  "named_block example_model ''down_path.0'' = example_block 2"
  "named_block example_model ''down_path.1'' = example_block 4"
  "named_block example_model ''down_path.2'' = example_block 5"
  "named_block example_model ''up_path.0'' = example_block 7"
  "named_block example_model ''up_path.1'' = example_block 8"
  by (simp_all add: named_block_def example_model_def get_values_def tuple_contains_def)

lemma example_wide_enough: "wide_enough example_model defaults"
proof -
  have three: "min (nat (depth defaults)) 3 = Suc (Suc (Suc 0))"
    and two: "min (Suc (Suc 0)) 2 = Suc (Suc 0)"
    and two': "nat (depth defaults - 1) = Suc (Suc 0)"
    by (simp_all add: defaults_def)
  have down: "\<forall>j < Suc (Suc (Suc 0)). \<forall>t.
      nat ([64, 128, 256] ! j) \<le> channels (call1 (named_block example_model (''down_path.'' @ str_nat j)) t)"
    by (simp add: All_less_Suc str_nat_digits example_named_block example_block_channels)
  have up: "\<forall>i < Suc (Suc 0). \<forall>t bridge.
      nat ([16, 32] ! i) \<le>
        channels (call2 (named_block example_model (''up_path.'' @ str_nat (Suc (Suc 0) - Suc i))) t bridge)"
    by (simp add: All_less_Suc str_nat_digits example_named_block example_block_channels)
  from down up show ?thesis
    unfolding wide_enough_def three two' two by (rule conjI)
qed



text \<open>
  Claim C9.  \<^verbatim>\<open>sensitivity_analysis\<close> hands the network one tensor, \<^verbatim>\<open>image_tensor[None]\<close>,
  whose leading dimension is 1.  \<^verbatim>\<open>block_filters\<close> hands its first block
  \<^verbatim>\<open>img_tensor.unsqueeze(0)\<close>, and every tensor it hands to a block has leading dimension
  1, the blocks and the pooling being layers that keep the batch dimension; when it raises
  before its first block is called, no tensor is handed to any block.
\<close>

theorem forward_passes_batch_of_one:
  "(sensitivity_analysis modl image_tensor target_class postprocess = Some (evs, r) \<longrightarrow>
      forwarded evs = [unsqueeze0 image_tensor] \<and> batch_of_one (unsqueeze0 image_tensor)) \<and>
   (keeps_batch ext modl \<and> block_filters ext modl img_path a = Some (evs', r') \<longrightarrow>
      (\<forall>t \<in> set (forwarded evs'). batch_of_one t) \<and>
      ((evs' = [] \<and> r' = Inl IndexError) \<or>
       (\<exists>rest. evs' = Forward [unsqueeze0 (fst (load_image ext img_path a))] # rest)))"
proof (rule conjI)
  show "sensitivity_analysis modl image_tensor target_class postprocess = Some (evs, r) \<longrightarrow>
      forwarded evs = [unsqueeze0 image_tensor] \<and> batch_of_one (unsqueeze0 image_tensor)"
    by (auto simp: sensitivity_analysis_eq)
next
  show "keeps_batch ext modl \<and> block_filters ext modl img_path a = Some (evs', r') \<longrightarrow>
      (\<forall>t \<in> set (forwarded evs'). batch_of_one t) \<and>
      ((evs' = [] \<and> r' = Inl IndexError) \<or>
       (\<exists>rest. evs' = Forward [unsqueeze0 (fst (load_image ext img_path a))] # rest))"
  proof (rule impI)
    assume asm: "keeps_batch ext modl \<and> block_filters ext modl img_path a = Some (evs', r')"
    then have run: "block_filters ext modl img_path a = Some (evs', r')" ..
    show "(\<forall>t \<in> set (forwarded evs'). batch_of_one t) \<and>
      ((evs' = [] \<and> r' = Inl IndexError) \<or>
       (\<exists>rest. evs' = Forward [unsqueeze0 (fst (load_image ext img_path a))] # rest))"
    proof (cases "blocks_named modl a \<and> 1 \<le> depth a")
      case True
      then have named: "blocks_named modl a" and depth: "1 \<le> depth a" by simp_all
      from asm have pool: "\<forall>t. batch_of_one t \<longrightarrow> batch_of_one (avg_pool2d ext t)"
        and blocks: "\<forall>b \<in> snd ` set (named_modules modl). \<forall>t. batch_of_one t \<longrightarrow> batch_of_one (call1 b t)"
        unfolding keeps_batch_def by blast+
      let ?R = "\<lambda>evs. (\<forall>t\<in>set (forwarded evs). batch_of_one t) \<and>
          (\<exists>rest. evs = Forward [unsqueeze0 (fst (load_image ext img_path a))] # rest)"
      from block_filters_outcome [where P = batch_of_one and I = "\<lambda>_ _. True" and J = "\<lambda>_ _. True",
          OF named depth batch_of_one_unsqueeze0 pool blocks, of img_path]
      have "outcome (block_filters ext modl img_path a) (\<lambda>evs _. ?R evs) (\<lambda>evs _. ?R evs)"
        by (rule outcome_weaken) simp_all
      then show ?thesis
      proof (cases rule: outcome_cases)
        case (returns evs0 u)
        with run show ?thesis by simp
      next
        case (raises evs0 e)
        with run show ?thesis by simp
      qed
    next
      case False
      from block_filters_raises [OF this, of ext img_path] run show ?thesis by simp
    qed
  qed
qed

lemma example_keeps_batch: "keeps_batch example_env example_model"
proof -
  have pool: "batch_of_one (avg_pool2d example_env t) = batch_of_one t" for t
    by (simp add: example_env_def batch_of_one_def)
  have block: "batch_of_one (call1 (example_block k) t)" for k t
    by (simp add: example_block_def batch_of_one_def)
  have "\<forall>b \<in> snd ` set (named_modules example_model). \<exists>k. b = example_block k"
    by (simp add: example_model_def) blast
  with pool block show ?thesis
    unfolding keeps_batch_def by auto
qed

lemma example_block_filters_completes:
  "\<exists>evs. block_filters example_env example_model ''test-volume.tif'' defaults = Some (evs, Inr ())"
  using example_blocks_named example_wide_enough
  by (intro block_filters_wide) (simp_all add: defaults_def)

theorem forward_passes_batch_of_one_witness:
  "(\<exists>evs r. sensitivity_analysis example_model example_image None (PyStr ''abs'') = Some (evs, r) \<and>
      forwarded evs = [\<lparr>shape = [1, 1, 1, 2], entries = [5, 7]\<rparr>] \<and>
      batch_of_one \<lparr>shape = [1, 1, 1, 2], entries = [5, 7]\<rparr>) \<and>
   (\<exists>evs. block_filters example_env example_model ''test-volume.tif'' defaults = Some (evs, Inr ()) \<and>
      list_all batch_of_one (forwarded evs) \<and>
      hd (forwarded evs) = \<lparr>shape = [1, 1, 1, 2], entries = [5, 7]\<rparr>)"
proof (rule conjI)
  have X: "unsqueeze0 example_image = \<lparr>shape = [1, 1, 1, 2], entries = [5, 7]\<rparr>"
    by (simp add: unsqueeze0_def example_image_def)
  obtain evs r where run: "sensitivity_analysis example_model example_image None (PyStr ''abs'') = Some (evs, r)"
    by (simp add: sensitivity_analysis_eq)
  from forward_passes_batch_of_one [THEN conjunct1, THEN mp, OF run]
  have "forwarded evs = [unsqueeze0 example_image] \<and> batch_of_one (unsqueeze0 example_image)" .
  with run show "\<exists>evs r. sensitivity_analysis example_model example_image None (PyStr ''abs'') = Some (evs, r) \<and>
      forwarded evs = [\<lparr>shape = [1, 1, 1, 2], entries = [5, 7]\<rparr>] \<and>
      batch_of_one \<lparr>shape = [1, 1, 1, 2], entries = [5, 7]\<rparr>"
    unfolding X by blast
next
  have input: "unsqueeze0 (fst (load_image example_env ''test-volume.tif'' defaults)) =
      \<lparr>shape = [1, 1, 1, 2], entries = [5, 7]\<rparr>"
    by (simp add: unsqueeze0_def example_image_def example_env_def)
  from example_block_filters_completes obtain evs where
    run: "block_filters example_env example_model ''test-volume.tif'' defaults = Some (evs, Inr ())"
    by blast
  with example_keeps_batch
  have pre: "keeps_batch example_env example_model \<and>
      block_filters example_env example_model ''test-volume.tif'' defaults = Some (evs, Inr ())"
    by simp
  from forward_passes_batch_of_one [THEN conjunct2, THEN mp, OF pre]
  have all: "\<forall>t \<in> set (forwarded evs). batch_of_one t"
    and first: "\<exists>rest. evs = Forward [unsqueeze0 (fst (load_image example_env ''test-volume.tif'' defaults))] # rest"
    by simp_all
  from first have "hd (forwarded evs) = \<lparr>shape = [1, 1, 1, 2], entries = [5, 7]\<rparr>"
    unfolding input by auto
  with run all show "\<exists>evs. block_filters example_env example_model ''test-volume.tif'' defaults = Some (evs, Inr ()) \<and>
      list_all batch_of_one (forwarded evs) \<and>
      hd (forwarded evs) = \<lparr>shape = [1, 1, 1, 2], entries = [5, 7]\<rparr>"
    by (auto simp: list_all_iff)
qed

section \<open>Properties of \<^verbatim>\<open>main\<close>\<close>
















end
